theory Spec2Isabelle
  imports Main "HOL-Library.Sublist"
begin

section \<open>Python strings\<close>

text \<open>
  A Python \<open>str\<close> is modelled as a \<open>string\<close>, one \<open>char\<close> per code point, so the model
  covers the code points 0 to 255. The primitives below are the \<open>str\<close> methods and the
  regular expressions that \<open>app.py\<close> applies, restricted to that range.
\<close>

datatype py_exc = IndexError | ValueError | TypeError | KeyError | OtherError string

definition py_isspace :: "char \<Rightarrow> bool" where
  \<comment> \<open>\<open>str.isspace\<close> and the regular expression class \<open>\s\<close> on a one-character string\<close>
  "py_isspace c =
     (c \<in> set [CHR 0x09, CHR 0x0A, CHR 0x0B, CHR 0x0C, CHR 0x0D, CHR 0x1C, CHR 0x1D,
                CHR 0x1E, CHR 0x1F, CHR 0x20, CHR 0x85, CHR 0xA0])"

definition py_lower :: "char \<Rightarrow> char" where
  \<comment> \<open>the lower-case form that \<open>re.IGNORECASE\<close> compares\<close>
  "py_lower c =
     (let n = (of_char c :: nat)
      in if (65 \<le> n \<and> n \<le> 90) \<or> (192 \<le> n \<and> n \<le> 222 \<and> n \<noteq> 215)
         then char_of (n + 32) else c)"

definition ci_match :: "string \<Rightarrow> string \<Rightarrow> bool" where
  \<comment> \<open>the literal \<open>pat\<close> matches at the start of \<open>s\<close>, ignoring case\<close>
  "ci_match pat s =
     (length pat \<le> length s \<and> map py_lower (take (length pat) s) = map py_lower pat)"

definition py_strip :: "string \<Rightarrow> string" where
  \<comment> \<open>\<open>s.strip()\<close>\<close>
  "py_strip s = rev (dropWhile py_isspace (rev (dropWhile py_isspace s)))"

definition py_strip_chars :: "string \<Rightarrow> string \<Rightarrow> string" where
  \<comment> \<open>\<open>s.strip(chars)\<close>\<close>
  "py_strip_chars s chars =
     rev (dropWhile (\<lambda>c. c \<in> set chars) (rev (dropWhile (\<lambda>c. c \<in> set chars) s)))"

definition py_startswith :: "string \<Rightarrow> string \<Rightarrow> bool" where
  "py_startswith s p = prefix p s"

definition py_endswith :: "string \<Rightarrow> string \<Rightarrow> bool" where
  "py_endswith s p = suffix p s"

function split_from :: "string \<Rightarrow> string \<Rightarrow> string \<Rightarrow> string list" where
  "split_from sep cur [] = [cur]"
| "split_from sep cur (c # cs) =
     (if sep \<noteq> [] \<and> prefix sep (c # cs)
      then cur # split_from sep [] (drop (length sep) (c # cs))
      else split_from sep (cur @ [c]) cs)"
  by pat_completeness auto
termination
  by (relation "measure (\<lambda>(sep, cur, s). length s)") (auto simp: neq_Nil_conv)

definition py_split :: "string \<Rightarrow> string \<Rightarrow> py_exc + string list" where
  \<comment> \<open>\<open>s.split(sep)\<close>: an empty separator raises ValueError\<close>
  "py_split s sep = (if sep = [] then Inl ValueError else Inr (split_from sep [] s))"

definition py_index :: "'a list \<Rightarrow> nat \<Rightarrow> py_exc + 'a" where
  \<comment> \<open>\<open>xs[i]\<close> for an index \<open>i \<ge> 0\<close>\<close>
  "py_index xs i = (if i < length xs then Inr (xs ! i) else Inl IndexError)"

section \<open>The query sanitizer\<close>

fun re_sub_fence :: "string \<Rightarrow> string" where
  "re_sub_fence [] = []"
| "re_sub_fence (c # cs) =
     (if ci_match ''```sql'' (c # cs) then re_sub_fence (drop 5 cs)
      else if ci_match ''```'' (c # cs) then re_sub_fence (drop 2 cs)
      else c # re_sub_fence cs)"

definition clean_sql_query :: "string \<Rightarrow> py_exc + string" where
  "clean_sql_query raw_sql =
     (let cleaned = re_sub_fence raw_sql
      in case py_split cleaned ''Let's run'' of
           Inl e \<Rightarrow> Inl e
         | Inr parts \<Rightarrow>
             (case py_index parts 0 of
                Inl e \<Rightarrow> Inl e
              | Inr cleaned \<Rightarrow>
                  (let cleaned = py_strip_chars (py_strip cleaned) '';'';
                       cleaned = (if \<not> py_endswith cleaned '';'' then cleaned @ '';''
                                  else cleaned)
                   in Inr cleaned)))"

fun re_search_sqlquery :: "string \<Rightarrow> string option" where
  \<comment> \<open>group 1 of \<open>re.search(r"SQLQuery:\s*(.*)", text, re.IGNORECASE)\<close>, None when
      there is no match: the greedy \<open>\s*\<close> takes every white-space character, line
      breaks too, and \<open>.\<close> takes every character but the line feed\<close>
  "re_search_sqlquery [] = None"
| "re_search_sqlquery (c # cs) =
     (if ci_match ''SQLQuery:'' (c # cs)
      then Some (takeWhile (\<lambda>x. x \<noteq> CHR 0x0A) (dropWhile py_isspace (drop 8 cs)))
      else re_search_sqlquery cs)"

definition extract_sql_query :: "string \<Rightarrow> string option" where
  \<comment> \<open>\<open>sql_query\<close> after lines 127 to 130\<close>
  "extract_sql_query raw =
     (case re_search_sqlquery raw of
        None \<Rightarrow> None
      | Some group1 \<Rightarrow> Some (py_strip group1))"

definition schema_query :: string where
  "schema_query = ''SELECT sql FROM sqlite_master WHERE type='table';''"

definition tables_query :: string where
  "tables_query = ''SELECT name FROM sqlite_master WHERE type='table';''"

definition fix_query :: "string \<Rightarrow> py_exc + string" where
  \<comment> \<open>\<open>fixed_query\<close> after lines 140 to 149, from a non-empty \<open>sql_query\<close>\<close>
  "fix_query sql_query =
     (let fixed_query = py_strip sql_query;
          fixed_query =
            (if py_startswith fixed_query ''.schema'' then schema_query
             else if py_startswith fixed_query ''.tables'' then tables_query
             else fixed_query)
      in clean_sql_query fixed_query)"

definition sanitize :: "string \<Rightarrow> py_exc + string option" where
  \<comment> \<open>lines 127 to 149 on the text of the model's answer: the query that goes to
      \<open>db.run\<close>, or None when the guard \<open>if sql_query:\<close> skips the execution\<close>
  "sanitize raw =
     (case extract_sql_query raw of
        None \<Rightarrow> Inr None
      | Some sql_query \<Rightarrow>
          if sql_query = [] then Inr None
          else (case fix_query sql_query of
                  Inl e \<Rightarrow> Inl e
                | Inr fixed_query \<Rightarrow> Inr (Some fixed_query)))"

section \<open>Python values at the database boundary\<close>

datatype pyval =
    PNone
  | PBool bool
  | PInt int
  | PStr string
  | PTuple "pyval list"
  | PList "pyval list"
  | PScalar string bool
    \<comment> \<open>any other scalar (a float, a Decimal, a date), by its repr and its truth value\<close>

fun truthy :: "pyval \<Rightarrow> bool" where
  "truthy PNone = False"
| "truthy (PBool b) = b"
| "truthy (PInt i) = (i \<noteq> 0)"
| "truthy (PStr s) = (s \<noteq> [])"
| "truthy (PTuple xs) = (xs \<noteq> [])"
| "truthy (PList xs) = (xs \<noteq> [])"
| "truthy (PScalar r t) = t"

fun py_getitem0 :: "pyval \<Rightarrow> py_exc + pyval" where
  \<comment> \<open>\<open>v[0]\<close>\<close>
  "py_getitem0 (PList xs) = py_index xs 0"
| "py_getitem0 (PTuple xs) = py_index xs 0"
| "py_getitem0 (PStr s) = (case py_index s 0 of Inl e \<Rightarrow> Inl e | Inr c \<Rightarrow> Inr (PStr [c]))"
| "py_getitem0 v = Inl TypeError"

fun py_len :: "pyval \<Rightarrow> py_exc + nat" where
  \<comment> \<open>\<open>len(v)\<close>\<close>
  "py_len (PList xs) = Inr (length xs)"
| "py_len (PTuple xs) = Inr (length xs)"
| "py_len (PStr s) = Inr (length s)"
| "py_len v = Inl TypeError"

fun py_str_nat :: "nat \<Rightarrow> string" where
  \<comment> \<open>the decimal digits of a non-negative int, as an f-string prints it\<close>
  "py_str_nat n =
     (if n < 10 then [char_of (48 + n)]
      else py_str_nat (n div 10) @ [char_of (48 + n mod 10)])"

declare py_str_nat.simps [simp del]

section \<open>The boundaries of a turn\<close>

text \<open>
  The model, the database driver, \<open>ast.literal_eval\<close> and the \<open>DataFrame\<close> constructor are
  libraries outside the repository: a turn takes them as parameters. Each one either
  returns a value or raises.
\<close>

record boundary =
  agent_invoke :: "string \<Rightarrow> py_exc + string"
    \<comment> \<open>\<open>agent.invoke({"query": q})["result"]\<close>\<close>
  db_run :: "string \<Rightarrow> py_exc + pyval"
    \<comment> \<open>\<open>db.run(sql)\<close>\<close>
  probe_keys :: "string \<Rightarrow> py_exc + string list"
    \<comment> \<open>\<open>conn.execute(sql).keys()\<close> on a fresh connection of the engine\<close>
  literal_eval :: "string \<Rightarrow> py_exc + pyval"
    \<comment> \<open>\<open>ast.literal_eval(s)\<close>\<close>
  data_frame_error :: "pyval \<Rightarrow> string list \<Rightarrow> py_exc option"
    \<comment> \<open>what \<open>pd.DataFrame(data, columns=columns)\<close> raises, None when it builds the frame\<close>

section \<open>The result normalizer\<close>

datatype ui_event =
    Chat_message string string
  | Subheader_reasoning
  | Subheader_results
  | Write_text string
  | Code_sql string
  | Write_result pyval
  | Show_dataframe pyval "string list"
  | Download_button pyval "string list"
  | Warning_display py_exc
  | Warning_execute py_exc
  | Error_turn py_exc

definition get_data_list :: "boundary \<Rightarrow> pyval \<Rightarrow> py_exc + pyval" where
  \<comment> \<open>\<open>data_list\<close> after lines 158 to 164\<close>
  "get_data_list env query_result =
     (case query_result of
        PList rows \<Rightarrow> Inr query_result
      | PStr s \<Rightarrow> if py_startswith s ''[('' then literal_eval env s else Inr PNone
      | _ \<Rightarrow> Inr PNone)"

definition synthetic_columns :: "pyval \<Rightarrow> py_exc + string list" where
  \<comment> \<open>the expression of line 174\<close>
  "synthetic_columns data_list =
     (if truthy data_list
      then (case py_getitem0 data_list of
              Inl e \<Rightarrow> Inl e
            | Inr row \<Rightarrow>
                (case py_len row of
                   Inl e \<Rightarrow> Inl e
                 | Inr n \<Rightarrow> Inr (map (\<lambda>i. ''col_'' @ py_str_nat (i + 1)) [0..<n])))
      else Inr [])"

definition detect_columns :: "boundary \<Rightarrow> string \<Rightarrow> pyval \<Rightarrow> py_exc + string list" where
  \<comment> \<open>\<open>columns\<close> after lines 169 to 174: every exception of the probe is caught\<close>
  "detect_columns env fixed_query data_list =
     (case probe_keys env fixed_query of
        Inr columns \<Rightarrow> Inr columns
      | Inl probe_err \<Rightarrow> synthetic_columns data_list)"

definition normalize :: "boundary \<Rightarrow> string \<Rightarrow> pyval \<Rightarrow> ui_event list" where
  \<comment> \<open>lines 156 to 191: what the results column shows for \<open>query_result\<close>\<close>
  "normalize env fixed_query query_result =
     (case get_data_list env query_result of
        Inl display_err \<Rightarrow> [Warning_display display_err]
      | Inr data_list \<Rightarrow>
          if truthy data_list
          then (case detect_columns env fixed_query data_list of
                  Inl display_err \<Rightarrow> [Warning_display display_err]
                | Inr columns \<Rightarrow>
                    (case data_frame_error env data_list columns of
                       Some display_err \<Rightarrow> [Warning_display display_err]
                     | None \<Rightarrow>
                         [Show_dataframe data_list columns,
                          Download_button data_list columns]))
          else [Write_result query_result])"

section \<open>The transcript and a turn\<close>

record message =
  role :: string
  content :: string

definition greeting :: message where
  "greeting = \<lparr>role = ''assistant'', content = ''Hello! Ask me anything about your database.''\<rparr>"

definition init_messages :: "message list option \<Rightarrow> bool \<Rightarrow> message list" where
  \<comment> \<open>lines 99 and 100: \<open>stored\<close> is the value under the key "messages" of the session
      state, None when the key is absent; \<open>clear_clicked\<close> is what the button returns\<close>
  "init_messages stored clear_clicked =
     (case stored of
        None \<Rightarrow> [greeting]
      | Some messages \<Rightarrow> if clear_clicked then [greeting] else messages)"

record turn =
  messages :: "message list"
  shown :: "ui_event list"
  executed :: "string list"
    \<comment> \<open>the statements passed to \<open>db.run\<close>\<close>

definition handle_turn :: "boundary \<Rightarrow> message list \<Rightarrow> string \<Rightarrow> turn" where
  \<comment> \<open>lines 110 to 201 for a non-empty \<open>user_query\<close>\<close>
  "handle_turn env history user_query =
     (let messages1 = history @ [\<lparr>role = ''user'', content = user_query\<rparr>];
          shown1 = [Chat_message ''user'' user_query, Subheader_reasoning, Subheader_results]
      in case agent_invoke env user_query of
           Inl e \<Rightarrow> \<lparr>messages = messages1, shown = shown1 @ [Error_turn e], executed = []\<rparr>
         | Inr result \<Rightarrow>
             (let sql_query = extract_sql_query result;
                  shown2 = shown1 @ [Write_text result] @
                    (case sql_query of
                       None \<Rightarrow> []
                     | Some q \<Rightarrow> if q \<noteq> [] then [Code_sql q] else []);
                  answer = \<lparr>role = ''assistant'', content = result\<rparr>
              in case sql_query of
                   None \<Rightarrow>
                     \<lparr>messages = messages1 @ [answer], shown = shown2, executed = []\<rparr>
                 | Some q \<Rightarrow>
                     if q = []
                     then \<lparr>messages = messages1 @ [answer], shown = shown2, executed = []\<rparr>
                     else (case fix_query q of
                             Inl e \<Rightarrow>
                               \<lparr>messages = messages1, shown = shown2 @ [Error_turn e],
                                executed = []\<rparr>
                           | Inr fixed_query \<Rightarrow>
                               (case db_run env fixed_query of
                                  Inl inner_err \<Rightarrow>
                                    \<lparr>messages = messages1 @ [answer],
                                     shown = shown2 @ [Warning_execute inner_err],
                                     executed = [fixed_query]\<rparr>
                                | Inr query_result \<Rightarrow>
                                    \<lparr>messages = messages1 @ [answer],
                                     shown = shown2 @ normalize env fixed_query query_result,
                                     executed = [fixed_query]\<rparr>))))"

section \<open>Predicates of the properties\<close>

fun has_marker :: "string \<Rightarrow> bool" where
  \<comment> \<open>the text holds the marker, in some letter case\<close>
  "has_marker [] = False"
| "has_marker (c # cs) = (ci_match ''SQLQuery:'' (c # cs) \<or> has_marker cs)"

fun before_sep :: "string \<Rightarrow> string \<Rightarrow> string" where
  \<comment> \<open>the text before the first occurrence of \<open>sep\<close>, the whole text when there is none\<close>
  "before_sep sep [] = []"
| "before_sep sep (c # cs) = (if prefix sep (c # cs) then [] else c # before_sep sep cs)"

definition ci_endswith :: "string \<Rightarrow> string \<Rightarrow> bool" where
  \<comment> \<open>\<open>s\<close> ends with the literal \<open>pat\<close>, ignoring case\<close>
  "ci_endswith s pat = ci_match (rev pat) (rev s)"

section \<open>A sample boundary\<close>

text \<open>
  One concrete set of boundaries, on which the properties below are evaluated: the model
  answers three questions and fails on the others, the database knows one statement, and
  the driver cannot be probed for column names.
\<close>

definition sample_rows :: pyval where
  "sample_rows = PList [PTuple [PInt 1, PStr ''a''], PTuple [PInt 2, PStr ''b'']]"

definition sample_boundary :: boundary where
  "sample_boundary =
     \<lparr>agent_invoke = (\<lambda>q.
        if q = ''list the tables'' then Inr ''SQLQuery: .tables''
        else if q = ''drop it'' then Inr ''Sure. SQLQuery: DROP TABLE student''
        else if q = ''hello'' then Inr ''The table has 5 rows.''
        else Inl (OtherError ''timeout'')),
      db_run = (\<lambda>sql.
        if sql = tables_query then Inr (PStr ''[(1, 'a'), (2, 'b')]'')
        else Inl (OtherError ''attempt to write a readonly database'')),
      probe_keys = (\<lambda>sql. Inl (OtherError ''not an executable object'')),
      literal_eval = (\<lambda>s.
        if s = ''[(1, 'a'), (2, 'b')]'' then Inr sample_rows else Inl ValueError),
      data_frame_error = (\<lambda>data columns. None)\<rparr>"

section \<open>Characters and the fence pattern\<close>

lemma char_of_eq_iff: "char_of (n::nat) = d \<longleftrightarrow> n mod 256 = of_char d"
  by (metis of_char_of of_char_eq_iff char_of_char)

lemma py_lower_eq_iff_noncased:
  assumes "of_char d < (65::nat) \<or> (90 < (of_char d :: nat) \<and> of_char d < (97::nat))"
  shows "py_lower c = d \<longleftrightarrow> c = d"
proof -
  have r: "(of_char c :: nat) < 256" by simp
  show ?thesis
    using assms r unfolding py_lower_def Let_def
    by (auto simp: char_of_eq_iff)
qed

lemma py_lower_backtick: "py_lower c = CHR 0x60 \<longleftrightarrow> c = CHR 0x60"
  by (rule py_lower_eq_iff_noncased) simp

lemma py_lower_const: "py_lower CHR 0x60 = CHR 0x60" "py_lower CHR ''L'' = CHR ''l''"
  by (simp_all add: py_lower_def char_of_eq_iff)

lemma ci_match_Nil: "ci_match [] s"
  by (simp add: ci_match_def)

lemma ci_match_Cons:
  "ci_match (p # ps) s \<longleftrightarrow> (\<exists>c cs. s = c # cs \<and> py_lower c = py_lower p \<and> ci_match ps cs)"
  by (cases s) (auto simp: ci_match_def)

lemma ci_match_append:
  "ci_match (p @ q) s \<longleftrightarrow> ci_match p s \<and> ci_match q (drop (length p) s)"
  by (induction p arbitrary: s) (auto simp: ci_match_Nil ci_match_Cons)

lemma ci_match_fence: "ci_match ''```'' s \<longleftrightarrow> prefix ''```'' s"
  by (auto simp: ci_match_Cons ci_match_Nil py_lower_const py_lower_backtick prefix_def)

lemma ci_match_fence_sql: "ci_match ''```sql'' s \<Longrightarrow> prefix ''```'' s"
  using ci_match_append [of "''```''" "''sql''" s] by (simp add: ci_match_fence)

lemma re_sub_fence_skip:
  "\<not> prefix ''```'' (c # cs) \<Longrightarrow> re_sub_fence (c # cs) = c # re_sub_fence cs"
proof -
  assume a: "\<not> prefix ''```'' (c # cs)"
  then have "\<not> ci_match ''```sql'' (c # cs)" "\<not> ci_match ''```'' (c # cs)"
    using ci_match_fence_sql [of "c # cs"] ci_match_fence [of "c # cs"] by blast+
  then show ?thesis by simp
qed

lemma re_sub_fence_hd1: "re_sub_fence s = CHR 0x60 # r \<Longrightarrow> \<exists>t. s = CHR 0x60 # t"
proof (cases s)
  case Nil then show "re_sub_fence s = CHR 0x60 # r \<Longrightarrow> ?thesis" by simp
next
  case (Cons c cs)
  assume a: "re_sub_fence s = CHR 0x60 # r"
  show ?thesis
  proof (cases "prefix ''```'' (c # cs)")
    case True then show ?thesis using Cons by (auto simp: prefix_def)
  next
    case False
    from re_sub_fence_skip [OF False] a Cons show ?thesis by simp
  qed
qed

lemma re_sub_fence_hd2:
  assumes "re_sub_fence s = CHR 0x60 # CHR 0x60 # r"
  shows "\<exists>t. s = CHR 0x60 # CHR 0x60 # t"
proof (cases s)
  case Nil with assms show ?thesis by simp
next
  case (Cons c cs)
  show ?thesis
  proof (cases "prefix ''```'' (c # cs)")
    case True then show ?thesis using Cons by (auto simp: prefix_def)
  next
    case False
    from re_sub_fence_skip [OF False] assms Cons
    have "c = CHR 0x60" "re_sub_fence cs = CHR 0x60 # r" by simp_all
    then show ?thesis using re_sub_fence_hd1 Cons by blast
  qed
qed

lemma re_sub_fence_no_fence: "\<not> sublist ''```'' (re_sub_fence s)"
proof (induction s rule: re_sub_fence.induct)
  case 1 then show ?case by simp
next
  case (2 c cs)
  show ?case
  proof (cases "ci_match ''```sql'' (c # cs)")
    case True with 2 show ?thesis by simp
  next
    case nsql: False
    show ?thesis
    proof (cases "prefix ''```'' (c # cs)")
      case True
      then have "ci_match ''```'' (c # cs)" by (simp only: ci_match_fence)
      with nsql 2 show ?thesis by simp
    next
      case False
      then have nm: "\<not> ci_match ''```'' (c # cs)" by (simp only: ci_match_fence not_False_eq_True)
      have ih: "\<not> sublist ''```'' (re_sub_fence cs)" using "2.IH"(3) nsql nm by blast
      have "\<not> prefix ''```'' (c # re_sub_fence cs)"
      proof
        assume "prefix ''```'' (c # re_sub_fence cs)"
        then obtain r where "c = CHR 0x60" "re_sub_fence cs = CHR 0x60 # CHR 0x60 # r"
          by (auto simp: prefix_def)
        then show False using re_sub_fence_hd2 False by (auto simp: prefix_def)
      qed
      with ih show ?thesis
        unfolding re_sub_fence_skip [OF False] sublist_Cons_right by blast
    qed
  qed
qed

section \<open>Splitting and stripping\<close>

lemma split_from_first:
  "sep \<noteq> [] \<Longrightarrow> \<exists>rest. split_from sep cur s = (cur @ before_sep sep s) # rest"
  by (induction sep cur s rule: split_from.induct) auto

lemma prefix_before_sep: "prefix (before_sep sep s) s"
  by (induction s) auto

lemma sublist_strip_pred:
  "sublist (rev (dropWhile P (rev (dropWhile P s)))) s"
proof -
  have "prefix (rev (dropWhile P (rev (dropWhile P s)))) (dropWhile P s)"
    by (metis suffix_dropWhile suffix_to_prefix rev_rev_ident)
  moreover have "suffix (dropWhile P s) s" by (rule suffix_dropWhile)
  ultimately show ?thesis
    by (meson prefix_imp_sublist suffix_imp_sublist sublist_order.order_trans)
qed

lemma strip_pred_not_last:
  "P c \<Longrightarrow> \<not> suffix [c] (rev (dropWhile P (rev s)))"
proof
  assume p: "P c" and "suffix [c] (rev (dropWhile P (rev s)))"
  then obtain xs where "rev (dropWhile P (rev s)) = xs @ [c]" by (auto simp: suffix_def)
  then have "dropWhile P (rev s) = c # rev xs" by (metis rev.simps(2) rev_rev_ident rev_append rev_singleton_conv append_Cons append_Nil)
  then show False using p by (metis hd_dropWhile list.sel(1) list.distinct(1))
qed

lemma clean_sql_query_eq:
  "clean_sql_query raw_sql =
     Inr (py_strip_chars (py_strip (before_sep ''Let's run'' (re_sub_fence raw_sql))) '';'' @ '';'')"
proof -
  obtain rest where r: "split_from ''Let's run'' [] (re_sub_fence raw_sql)
      = before_sep ''Let's run'' (re_sub_fence raw_sql) # rest"
    using split_from_first [of "''Let's run''" "[]" "re_sub_fence raw_sql"] by auto
  have ns: "\<not> py_endswith (py_strip_chars x '';'') '';''" for x
    unfolding py_endswith_def py_strip_chars_def
    by (rule strip_pred_not_last) simp
  show ?thesis
    unfolding clean_sql_query_def Let_def py_split_def py_index_def r
    using ns by simp
qed

section \<open>The marker and the shape of a sanitized query\<close>

lemma re_search_sqlquery_None_iff: "re_search_sqlquery raw = None \<longleftrightarrow> \<not> has_marker raw"
  by (induction raw) auto

lemma has_marker_iff:
  "has_marker raw \<longleftrightarrow> (\<exists>pre post. raw = pre @ post \<and> ci_match ''SQLQuery:'' post)"
proof (induction raw)
  case Nil
  show ?case by (simp add: ci_match_def)
next
  case (Cons c cs)
  show ?case
  proof
    assume "has_marker (c # cs)"
    then consider "ci_match ''SQLQuery:'' (c # cs)" | "has_marker cs" by auto
    then show "\<exists>pre post. c # cs = pre @ post \<and> ci_match ''SQLQuery:'' post"
    proof cases
      case 1
      then have "c # cs = [] @ (c # cs) \<and> ci_match ''SQLQuery:'' (c # cs)" by simp
      then show ?thesis by blast
    next
      case 2
      then obtain pre post where "cs = pre @ post" "ci_match ''SQLQuery:'' post"
        using Cons.IH by blast
      then have "c # cs = (c # pre) @ post \<and> ci_match ''SQLQuery:'' post" by simp
      then show ?thesis by blast
    qed
  next
    assume "\<exists>pre post. c # cs = pre @ post \<and> ci_match ''SQLQuery:'' post"
    then obtain pre post where d: "c # cs = pre @ post" and m: "ci_match ''SQLQuery:'' post"
      by blast
    show "has_marker (c # cs)"
    proof (cases pre)
      case Nil
      with d have "post = c # cs" by simp
      with m show ?thesis by simp
    next
      case (Cons p ps)
      with d have "cs = ps @ post" by simp
      with m Cons.IH have "has_marker cs" by blast
      then show ?thesis by simp
    qed
  qed
qed

lemma clean_sql_query_shape:
  "\<exists>y. clean_sql_query raw_sql = Inr (y @ '';'') \<and> \<not> suffix '';'' y \<and> \<not> sublist ''```'' y"
proof -
  let ?b = "before_sep ''Let's run'' (re_sub_fence raw_sql)"
  let ?y = "py_strip_chars (py_strip ?b) '';''"
  have 1: "\<not> suffix '';'' ?y"
    unfolding py_strip_chars_def by (rule strip_pred_not_last) simp
  have "sublist ?y (py_strip ?b)" unfolding py_strip_chars_def by (rule sublist_strip_pred)
  moreover have "sublist (py_strip ?b) ?b" unfolding py_strip_def by (rule sublist_strip_pred)
  moreover have "sublist ?b (re_sub_fence raw_sql)"
    by (rule prefix_imp_sublist) (rule prefix_before_sep)
  ultimately have "sublist ?y (re_sub_fence raw_sql)"
    by (meson sublist_order.order_trans)
  then have 2: "\<not> sublist ''```'' ?y"
    using re_sub_fence_no_fence [of raw_sql] by (meson sublist_order.order_trans)
  from 1 2 clean_sql_query_eq [of raw_sql] show ?thesis by blast
qed

lemma one_semicolon_no_fence:
  assumes "\<not> suffix '';'' y" "\<not> sublist ''```'' y"
  shows "py_endswith (y @ '';'') '';'' \<and> \<not> py_endswith (y @ '';'') '';;''
         \<and> \<not> sublist ''```'' (y @ '';'')"
proof -
  have a: "py_endswith (y @ '';'') '';''" by (simp add: py_endswith_def)
  have "'';;'' = '';'' @ '';''" by simp
  then have b: "\<not> py_endswith (y @ '';'') '';;''"
    using assms(1) unfolding py_endswith_def by (metis same_suffix_suffix)
  have "\<not> suffix ''```'' (y @ '';'')"
    by (auto simp: suffix_def)
  then have c: "\<not> sublist ''```'' (y @ '';'')"
    using assms(2) sublist_snoc [of "''```''" y "CHR '';''"] by simp
  from a b c show ?thesis by blast
qed

lemma fix_query_shape:
  "\<exists>q. fix_query sql_query = Inr q \<and> py_endswith q '';'' \<and> \<not> py_endswith q '';;''
       \<and> \<not> sublist ''```'' q"
proof -
  obtain x where x: "fix_query sql_query = clean_sql_query x"
    by (simp add: fix_query_def Let_def)
  from clean_sql_query_shape [of x] obtain y where
    "clean_sql_query x = Inr (y @ '';'')" "\<not> suffix '';'' y" "\<not> sublist ''```'' y" by blast
  with x one_semicolon_no_fence [of y] show ?thesis by simp
qed


section \<open>Properties of the sanitizer\<close>

text \<open>
  C2. When the answer of the model holds the marker \<open>SQLQuery:\<close>, in any letter case,
  and a query follows it (the \<open>sql_query\<close> of lines 127 to 130 is not the empty string),
  the sanitizer returns a statement, that statement ends in one semicolon and not in two,
  and no run of three backticks occurs in it.
\<close>

theorem sanitize_one_semicolon_no_fence:
  assumes "has_marker raw" and "extract_sql_query raw \<noteq> Some []"
  shows "\<exists>q. sanitize raw = Inr (Some q) \<and> py_endswith q '';'' \<and> \<not> py_endswith q '';;''
            \<and> \<not> sublist ''```'' q"
proof -
  from assms(1) obtain g where "re_search_sqlquery raw = Some g"
    using re_search_sqlquery_None_iff [of raw] by auto
  then have e: "extract_sql_query raw = Some (py_strip g)" by (simp add: extract_sql_query_def)
  with assms(2) have ne: "py_strip g \<noteq> []" by simp
  from fix_query_shape [of "py_strip g"] obtain q where
    q: "fix_query (py_strip g) = Inr q" "py_endswith q '';''" "\<not> py_endswith q '';;''"
       "\<not> sublist ''```'' q" by blast
  from e ne q(1) have "sanitize raw = Inr (Some q)" by (simp add: sanitize_def)
  with q show ?thesis by blast
qed

theorem sanitize_one_semicolon_no_fence_witness:
  "has_marker ''Answer. sqlquery: ```SQL SELECT 1;;``` ''
   \<and> extract_sql_query ''Answer. sqlquery: ```SQL SELECT 1;;``` '' \<noteq> Some []
   \<and> sanitize ''Answer. sqlquery: ```SQL SELECT 1;;``` '' = Inr (Some ''SELECT 1;'')
   \<and> (\<exists>q. sanitize ''Answer. sqlquery: ```SQL SELECT 1;;``` '' = Inr (Some q)
          \<and> py_endswith q '';'' \<and> \<not> py_endswith q '';;'' \<and> \<not> sublist ''```'' q)"
proof -
  have h: "has_marker ''Answer. sqlquery: ```SQL SELECT 1;;``` ''" by code_simp
  have n: "extract_sql_query ''Answer. sqlquery: ```SQL SELECT 1;;``` '' \<noteq> Some []"
    by code_simp
  have v: "sanitize ''Answer. sqlquery: ```SQL SELECT 1;;``` '' = Inr (Some ''SELECT 1;'')"
    by code_simp
  from sanitize_one_semicolon_no_fence [OF h n] h n v show ?thesis by blast
qed

text \<open>
  C5. \<open>clean_sql_query\<close> raises on no input: for every string it returns a string, and
  that string is never empty. So do the rewrite of lines 140 to 149 and the whole
  sanitizer. On the empty string the result is the lone semicolon.
\<close>

theorem clean_sql_query_total:
  "(\<exists>out. clean_sql_query raw_sql = Inr out \<and> out \<noteq> [])
   \<and> (\<exists>out. fix_query sql_query = Inr out)
   \<and> (\<exists>r. sanitize raw = Inr r)
   \<and> clean_sql_query [] = Inr '';''"
proof -
  have 1: "\<exists>out. clean_sql_query raw_sql = Inr out \<and> out \<noteq> []"
    using clean_sql_query_eq [of raw_sql] by simp
  have 2: "\<exists>out. fix_query q = Inr out" for q
    using fix_query_shape [of q] by blast
  have 3: "\<exists>r. sanitize raw = Inr r"
  proof (cases "extract_sql_query raw")
    case None
    then show ?thesis by (simp add: sanitize_def)
  next
    case (Some q)
    from 2 [of q] obtain out where "fix_query q = Inr out" by blast
    with Some show ?thesis by (simp add: sanitize_def)
  qed
  have 4: "clean_sql_query [] = Inr '';''" by code_simp
  from 1 2 3 4 show ?thesis by blast
qed

section \<open>An answer without the marker\<close>

lemma sanitize_no_marker: "\<not> has_marker raw \<Longrightarrow> sanitize raw = Inr None"
  by (simp add: sanitize_def extract_sql_query_def re_search_sqlquery_None_iff [symmetric])

text \<open>
  C1, as the code has it. When the answer of the model holds no marker \<open>SQLQuery:\<close> in any
  letter case, the search of line 128 finds nothing, \<open>sql_query\<close> stays None and the guard of
  line 139 skips the whole execution: the sanitizer yields no statement, nothing is passed
  to \<open>db.run\<close>, the answer is written as it is and appended to the transcript.
\<close>

theorem no_marker_skips_execution:
  assumes "\<not> has_marker raw" and "agent_invoke env user_query = Inr raw"
  shows "sanitize raw = Inr None
         \<and> handle_turn env history user_query =
             \<lparr>messages = history @ [\<lparr>role = ''user'', content = user_query\<rparr>,
                                    \<lparr>role = ''assistant'', content = raw\<rparr>],
              shown = [Chat_message ''user'' user_query, Subheader_reasoning,
                       Subheader_results, Write_text raw],
              executed = []\<rparr>"
proof -
  from assms(1) have n: "re_search_sqlquery raw = None"
    by (simp add: re_search_sqlquery_None_iff)
  then have "extract_sql_query raw = None" by (simp add: extract_sql_query_def)
  with assms(2) show ?thesis
    by (simp add: sanitize_def handle_turn_def Let_def)
qed

theorem no_marker_skips_execution_witness:
  "\<not> has_marker ''The table has 5 rows.''
   \<and> agent_invoke sample_boundary ''hello'' = Inr ''The table has 5 rows.''
   \<and> sanitize ''The table has 5 rows.'' = Inr None
   \<and> executed (handle_turn sample_boundary [greeting] ''hello'') = []"
proof -
  have h: "\<not> has_marker ''The table has 5 rows.''" by code_simp
  have a: "agent_invoke sample_boundary ''hello'' = Inr ''The table has 5 rows.''"
    by (simp add: sample_boundary_def)
  from no_marker_skips_execution [OF h a, of "[greeting]"] h a show ?thesis by simp
qed

text \<open>
  C1 as stated fails: the answer below has no marker; taken whole as the candidate it
  would be sanitized to a statement, but the sanitizer yields none and the turn runs
  nothing.
\<close>

theorem whole_text_candidate_counterexample:
  "\<not> has_marker ''The table has 5 rows.''
   \<and> fix_query ''The table has 5 rows.'' = Inr ''The table has 5 rows.;''
   \<and> sanitize ''The table has 5 rows.'' = Inr None
   \<and> executed (handle_turn sample_boundary [greeting] ''hello'') = []"
  by code_simp


section \<open>The rewrite of the shell commands\<close>

lemma clean_schema_query: "clean_sql_query schema_query = Inr schema_query"
  by code_simp

lemma clean_tables_query: "clean_sql_query tables_query = Inr tables_query"
  by code_simp

lemma not_schema_and_tables:
  "py_startswith s ''.tables'' \<Longrightarrow> \<not> py_startswith s ''.schema''"
  by (auto simp: py_startswith_def prefix_def)

text \<open>
  C3, as the code has it. The test of lines 143 to 146 reads the candidate after
  \<open>strip()\<close> and before any fence is removed: when that text starts with \<open>.schema\<close> the
  result is the schema statement, when it starts with \<open>.tables\<close> the result is the table
  statement, and the candidate \<open>.schema\<close> gives the schema statement.
\<close>

theorem fix_query_meta_commands:
  "(py_startswith (py_strip c) ''.schema'' \<longrightarrow>
      fix_query c = Inr ''SELECT sql FROM sqlite_master WHERE type='table';'')
   \<and> (py_startswith (py_strip c) ''.tables'' \<longrightarrow>
      fix_query c = Inr ''SELECT name FROM sqlite_master WHERE type='table';'')
   \<and> fix_query ''.schema'' = Inr ''SELECT sql FROM sqlite_master WHERE type='table';''"
proof -
  have s: "schema_query = ''SELECT sql FROM sqlite_master WHERE type='table';''"
    by (simp add: schema_query_def)
  have t: "tables_query = ''SELECT name FROM sqlite_master WHERE type='table';''"
    by (simp add: tables_query_def)
  have 1: "fix_query c = Inr schema_query" if "py_startswith (py_strip c) ''.schema''" for c
    using that by (simp add: fix_query_def Let_def clean_schema_query)
  have 2: "fix_query c = Inr tables_query" if "py_startswith (py_strip c) ''.tables''" for c
    using that not_schema_and_tables [OF that]
    by (simp add: fix_query_def Let_def clean_tables_query)
  have "py_startswith (py_strip ''.schema'') ''.schema''" by code_simp
  then have 3: "fix_query ''.schema'' = Inr schema_query" by (rule 1)
  from 1 [of c] 2 [of c] 3 show ?thesis unfolding s t by blast
qed

theorem fix_query_meta_commands_witness:
  "py_startswith (py_strip ''  .schema student '') ''.schema''
   \<and> fix_query ''  .schema student '' = Inr ''SELECT sql FROM sqlite_master WHERE type='table';''
   \<and> py_startswith (py_strip ''.tables'') ''.tables''
   \<and> fix_query ''.tables'' = Inr ''SELECT name FROM sqlite_master WHERE type='table';''"
proof -
  have a: "py_startswith (py_strip ''  .schema student '') ''.schema''" by code_simp
  have b: "py_startswith (py_strip ''.tables'') ''.tables''" by code_simp
  from fix_query_meta_commands [of "''  .schema student ''"]
       fix_query_meta_commands [of "''.tables''"] a b
  show ?thesis by blast
qed

text \<open>
  C3 as stated fails: after the fence is removed and the text trimmed the candidate
  below starts with \<open>.schema\<close>, yet the result is \<open>.schema;\<close>, because the test of line
  143 ran on the fenced text.
\<close>

theorem fenced_schema_counterexample:
  "py_startswith (py_strip (re_sub_fence ''```.schema'')) ''.schema''
   \<and> fix_query ''```.schema'' = Inr ''.schema;''
   \<and> sanitize ''SQLQuery: ```.schema'' = Inr (Some ''.schema;'')"
  by code_simp

section \<open>The transcript\<close>

text \<open>
  C9. When the clear button was clicked, whatever the session state held, the transcript
  after line 100 is the greeting alone: its length is 1 and the role of its message is
  \<open>assistant\<close>.
\<close>

theorem clear_resets_transcript:
  "init_messages stored True = [greeting]
   \<and> length (init_messages stored True) = 1
   \<and> map role (init_messages stored True) = [''assistant'']"
  by (cases stored) (simp_all add: init_messages_def greeting_def)

section \<open>Properties of the normalizer\<close>


lemma parse_failure_warns:
  "py_startswith s ''[('' \<Longrightarrow> literal_eval env s = Inl e \<Longrightarrow>
     normalize env fixed_query (PStr s) = [Warning_display e]"
  by (simp add: normalize_def get_data_list_def)




lemma sample_columns:
  "map (\<lambda>i. ''col_'' @ py_str_nat (i + 1)) [0..<length [PInt 1, PStr ''a'']]
     = [''col_1'', ''col_2'']"
  by code_simp

text \<open>
  C6. A result that is a text beginning with \<open>[(\<close> goes to \<open>ast.literal_eval\<close>. When that
  gives a list whose first row is a tuple of N cells and the probe for column names
  raises, the columns are \<open>col_1\<close> to \<open>col_N\<close>, and the table shown holds the parsed
  rows under these columns. The witness is the text \<open>[(1, 'a'), (2, 'b')]\<close>: columns
  \<open>col_1\<close> and \<open>col_2\<close>, rows \<open>(1, 'a')\<close> and \<open>(2, 'b')\<close>.
\<close>

theorem literal_rows_synthetic_columns:
  assumes "py_startswith s ''[(''"
    and "literal_eval env s = Inr (PList (PTuple cells # rows))"
    and "probe_keys env fixed_query = Inl probe_err"
    and "data_frame_error env (PList (PTuple cells # rows))
           (map (\<lambda>i. ''col_'' @ py_str_nat (i + 1)) [0..<length cells]) = None"
  shows "detect_columns env fixed_query (PList (PTuple cells # rows))
           = Inr (map (\<lambda>i. ''col_'' @ py_str_nat (i + 1)) [0..<length cells])
         \<and> normalize env fixed_query (PStr s)
           = [Show_dataframe (PList (PTuple cells # rows))
                (map (\<lambda>i. ''col_'' @ py_str_nat (i + 1)) [0..<length cells]),
              Download_button (PList (PTuple cells # rows))
                (map (\<lambda>i. ''col_'' @ py_str_nat (i + 1)) [0..<length cells])]"
proof -
  let ?d = "PList (PTuple cells # rows)"
  let ?cols = "map (\<lambda>i. ''col_'' @ py_str_nat (i + 1)) [0..<length cells]"
  have g: "get_data_list env (PStr s) = Inr ?d"
    using assms(1,2) by (simp add: get_data_list_def)
  have "synthetic_columns ?d = Inr ?cols"
    by (simp add: synthetic_columns_def py_index_def)
  with assms(3) have c: "detect_columns env fixed_query ?d = Inr ?cols"
    by (simp add: detect_columns_def)
  have "normalize env fixed_query (PStr s) = [Show_dataframe ?d ?cols, Download_button ?d ?cols]"
    unfolding normalize_def g using c assms(4) by simp
  with c show ?thesis by blast
qed

theorem literal_rows_synthetic_columns_witness:
  "py_startswith ''[(1, 'a'), (2, 'b')]'' ''[(''
   \<and> literal_eval sample_boundary ''[(1, 'a'), (2, 'b')]''
       = Inr (PList [PTuple [PInt 1, PStr ''a''], PTuple [PInt 2, PStr ''b'']])
   \<and> probe_keys sample_boundary tables_query = Inl (OtherError ''not an executable object'')
   \<and> data_frame_error sample_boundary
        (PList [PTuple [PInt 1, PStr ''a''], PTuple [PInt 2, PStr ''b'']]) [''col_1'', ''col_2'']
       = None
   \<and> normalize sample_boundary tables_query (PStr ''[(1, 'a'), (2, 'b')]'')
       = [Show_dataframe (PList [PTuple [PInt 1, PStr ''a''], PTuple [PInt 2, PStr ''b'']])
            [''col_1'', ''col_2''],
          Download_button (PList [PTuple [PInt 1, PStr ''a''], PTuple [PInt 2, PStr ''b'']])
            [''col_1'', ''col_2'']]"
proof -
  have a: "py_startswith ''[(1, 'a'), (2, 'b')]'' ''[(''" by (simp add: py_startswith_def)
  have b: "literal_eval sample_boundary ''[(1, 'a'), (2, 'b')]''
             = Inr (PList (PTuple [PInt 1, PStr ''a''] # [PTuple [PInt 2, PStr ''b'']]))"
    by (simp add: sample_boundary_def sample_rows_def)
  have c: "probe_keys sample_boundary tables_query = Inl (OtherError ''not an executable object'')"
    by (simp add: sample_boundary_def)
  have d: "data_frame_error sample_boundary
             (PList (PTuple [PInt 1, PStr ''a''] # [PTuple [PInt 2, PStr ''b'']]))
             (map (\<lambda>i. ''col_'' @ py_str_nat (i + 1)) [0..<length [PInt 1, PStr ''a'']]) = None"
    by (simp add: sample_boundary_def)
  have e: "map (\<lambda>i. ''col_'' @ py_str_nat (i + 1)) [0..<length [PInt 1, PStr ''a'']]
             = [''col_1'', ''col_2'']"
    by (rule sample_columns)
  from literal_rows_synthetic_columns [OF a b c d] a b c d
  show ?thesis unfolding e by simp
qed

lemma turn_runs_sanitized_query:
  "agent_invoke env user_query = Inr raw \<Longrightarrow>
     executed (handle_turn env history user_query)
       = (case sanitize raw of Inr (Some fixed_query) \<Rightarrow> [fixed_query] | _ \<Rightarrow> [])"
  by (simp add: handle_turn_def sanitize_def Let_def split: sum.splits option.splits)

lemma handle_turn_keeps_history:
  "prefix (history @ [\<lparr>role = ''user'', content = user_query\<rparr>])
          (messages (handle_turn env history user_query))"
  by (simp add: handle_turn_def Let_def split: sum.splits option.splits)

section \<open>A turn whose statement fails\<close>

text \<open>
  C8. When \<open>db.run\<close> raises on the sanitized statement, the handler of line 193 catches
  the exception: the turn shows a warning and no error, the answer of the model is
  appended to the transcript after the question, and a next turn starts from that
  transcript.
\<close>

theorem execution_failure_is_warning:
  assumes "agent_invoke env user_query = Inr raw"
    and "extract_sql_query raw = Some sql_query" and "sql_query \<noteq> []"
    and "fix_query sql_query = Inr fixed_query"
    and "db_run env fixed_query = Inl inner_err"
  shows "handle_turn env history user_query =
           \<lparr>messages = history @ [\<lparr>role = ''user'', content = user_query\<rparr>,
                                  \<lparr>role = ''assistant'', content = raw\<rparr>],
            shown = [Chat_message ''user'' user_query, Subheader_reasoning, Subheader_results,
                     Write_text raw, Code_sql sql_query, Warning_execute inner_err],
            executed = [fixed_query]\<rparr>
         \<and> prefix (history @ [\<lparr>role = ''user'', content = user_query\<rparr>,
                               \<lparr>role = ''assistant'', content = raw\<rparr>,
                               \<lparr>role = ''user'', content = next_query\<rparr>])
                   (messages (handle_turn env2
                      (messages (handle_turn env history user_query)) next_query))"
proof -
  have t: "handle_turn env history user_query =
           \<lparr>messages = history @ [\<lparr>role = ''user'', content = user_query\<rparr>,
                                  \<lparr>role = ''assistant'', content = raw\<rparr>],
            shown = [Chat_message ''user'' user_query, Subheader_reasoning, Subheader_results,
                     Write_text raw, Code_sql sql_query, Warning_execute inner_err],
            executed = [fixed_query]\<rparr>"
    using assms by (simp add: handle_turn_def Let_def)
  have "prefix (messages (handle_turn env history user_query)
                  @ [\<lparr>role = ''user'', content = next_query\<rparr>])
               (messages (handle_turn env2
                  (messages (handle_turn env history user_query)) next_query))"
    by (rule handle_turn_keeps_history)
  with t show ?thesis by simp
qed

theorem execution_failure_is_warning_witness:
  "agent_invoke sample_boundary ''drop it'' = Inr ''Sure. SQLQuery: DROP TABLE student''
   \<and> extract_sql_query ''Sure. SQLQuery: DROP TABLE student'' = Some ''DROP TABLE student''
   \<and> fix_query ''DROP TABLE student'' = Inr ''DROP TABLE student;''
   \<and> db_run sample_boundary ''DROP TABLE student;''
        = Inl (OtherError ''attempt to write a readonly database'')
   \<and> handle_turn sample_boundary [greeting] ''drop it'' =
        \<lparr>messages = [greeting, \<lparr>role = ''user'', content = ''drop it''\<rparr>,
                     \<lparr>role = ''assistant'', content = ''Sure. SQLQuery: DROP TABLE student''\<rparr>],
         shown = [Chat_message ''user'' ''drop it'', Subheader_reasoning, Subheader_results,
                  Write_text ''Sure. SQLQuery: DROP TABLE student'',
                  Code_sql ''DROP TABLE student'',
                  Warning_execute (OtherError ''attempt to write a readonly database'')],
         executed = [''DROP TABLE student;'']\<rparr>"
proof -
  have a: "agent_invoke sample_boundary ''drop it'' = Inr ''Sure. SQLQuery: DROP TABLE student''"
    by (simp add: sample_boundary_def)
  have b: "extract_sql_query ''Sure. SQLQuery: DROP TABLE student'' = Some ''DROP TABLE student''"
    by code_simp
  have c: "''DROP TABLE student'' \<noteq> []" by simp
  have d: "fix_query ''DROP TABLE student'' = Inr ''DROP TABLE student;''" by code_simp
  have e: "db_run sample_boundary ''DROP TABLE student;''
             = Inl (OtherError ''attempt to write a readonly database'')"
    by (simp add: sample_boundary_def tables_query_def)
  from execution_failure_is_warning [OF a b c d e, of "[greeting]"] a b d e
  show ?thesis by simp
qed

section \<open>Cutting at the phrase\<close>

lemma ci_match_prefix_mono: "ci_match p s \<Longrightarrow> prefix s s' \<Longrightarrow> ci_match p s'"
  by (auto simp: ci_match_def prefix_def)

lemma ci_match_split:
  "ci_match p (s @ t) \<longleftrightarrow>
     (length p \<le> length s \<and> ci_match p s)
     \<or> (length s < length p \<and> ci_match (take (length s) p) s
         \<and> ci_match (drop (length s) p) t)"
proof (induction s arbitrary: p)
  case Nil
  show ?case by (cases p) (auto simp: ci_match_Nil)
next
  case (Cons c cs)
  show ?case
  proof (cases p)
    case Nil
    then show ?thesis by (simp add: ci_match_Nil)
  next
    case (Cons x xs)
    then show ?thesis using Cons.IH [of xs] by (auto simp: ci_match_Cons)
  qed
qed

lemma ci_match_same_length_rev:
  "length s = length p \<Longrightarrow> ci_match p s \<longleftrightarrow> ci_match (rev p) (rev s)"
  by (simp add: ci_match_def rev_map [symmetric])

lemma ci_endswith_suffix_mono: "ci_endswith s' pat \<Longrightarrow> suffix s' s \<Longrightarrow> ci_endswith s pat"
  unfolding ci_endswith_def
  by (rule ci_match_prefix_mono) (simp_all add: suffix_to_prefix)

lemma ci_match_drop_hd:
  assumes "k < length p" and "ci_match (drop k p) (x # t)"
  shows "py_lower x = py_lower (p ! k)"
proof -
  from assms(1) have "drop k p = p ! k # drop (Suc k) p" by (simp add: Cons_nth_drop_Suc)
  with assms(2) show ?thesis by (simp add: ci_match_Cons)
qed

lemma fence_nth_not_l: "k < 3 \<Longrightarrow> py_lower (''```'' ! k) \<noteq> CHR ''l''"
proof -
  assume "k < 3"
  then consider "k = 0" | "k = 1" | "k = 2" by linarith
  then show ?thesis by cases (simp_all add: py_lower_def char_of_eq_iff)
qed

lemma fence_sql_nth_l: "k < 6 \<Longrightarrow> py_lower (''```sql'' ! k) = CHR ''l'' \<Longrightarrow> k = 5"
proof -
  assume "k < 6" and l: "py_lower (''```sql'' ! k) = CHR ''l''"
  then consider "k = 0" | "k = 1" | "k = 2" | "k = 3" | "k = 4" | "k = 5" by linarith
  then show ?thesis using l by cases (simp_all add: py_lower_def char_of_eq_iff)
qed

lemma fence_match_before_L:
  "ci_match ''```'' (s @ CHR ''L'' # t) \<longleftrightarrow> ci_match ''```'' s"
proof -
  have "\<not> (length s < 3 \<and> ci_match (drop (length s) ''```'') (CHR ''L'' # t))"
    using ci_match_drop_hd [of "length s" "''```''" "CHR ''L''" t] fence_nth_not_l [of "length s"]
    by (auto simp: py_lower_const)
  moreover have "ci_match ''```'' s \<Longrightarrow> length ''```'' \<le> length s" by (simp add: ci_match_def)
  ultimately show ?thesis using ci_match_split [of "''```''" s "CHR ''L'' # t"] by auto
qed

lemma fence_sql_match_before_L:
  assumes "\<not> ci_endswith s ''```sq''"
  shows "ci_match ''```sql'' (s @ CHR ''L'' # t) \<longleftrightarrow> ci_match ''```sql'' s"
proof -
  have "\<not> (length s < 6 \<and> ci_match (take (length s) ''```sql'') s
            \<and> ci_match (drop (length s) ''```sql'') (CHR ''L'' # t))"
  proof
    assume a: "length s < 6 \<and> ci_match (take (length s) ''```sql'') s
            \<and> ci_match (drop (length s) ''```sql'') (CHR ''L'' # t)"
    then have "py_lower (''```sql'' ! length s) = CHR ''l''"
      using ci_match_drop_hd [of "length s" "''```sql''" "CHR ''L''" t] by (simp add: py_lower_const)
    with a have k: "length s = 5" using fence_sql_nth_l by blast
    with a have "ci_match ''```sq'' s" by simp
    with k have "ci_match (rev ''```sq'') (rev s)"
      using ci_match_same_length_rev [of s "''```sq''"] by simp
    with assms show False by (simp add: ci_endswith_def)
  qed
  moreover have "ci_match ''```sql'' s \<Longrightarrow> length ''```sql'' \<le> length s"
    by (simp add: ci_match_def)
  ultimately show ?thesis using ci_match_split [of "''```sql''" s "CHR ''L'' # t"] by auto
qed

lemma re_sub_fence_phrase: "re_sub_fence (''Let's run'' @ b) = ''Let's run'' @ re_sub_fence b"
  by (simp add: ci_match_Cons py_lower_backtick py_lower_def char_of_eq_iff)

lemma re_sub_fence_before_phrase:
  "\<not> ci_endswith a ''```sq'' \<Longrightarrow>
     re_sub_fence (a @ ''Let's run'' @ b) = re_sub_fence a @ ''Let's run'' @ re_sub_fence b"
proof (induction a rule: re_sub_fence.induct)
  case 1
  show ?case using re_sub_fence_phrase [of b] by simp
next
  case (2 c cs)
  let ?t = "''et's run'' @ b"
  have L: "''Let's run'' @ b = CHR ''L'' # ?t" by simp
  have m6: "ci_match ''```sql'' ((c # cs) @ CHR ''L'' # ?t) \<longleftrightarrow> ci_match ''```sql'' (c # cs)"
    using "2.prems" by (rule fence_sql_match_before_L)
  have m3: "ci_match ''```'' ((c # cs) @ CHR ''L'' # ?t) \<longleftrightarrow> ci_match ''```'' (c # cs)"
    by (rule fence_match_before_L)
  show ?case
  proof (cases "ci_match ''```sql'' (c # cs)")
    case True
    then have len: "5 \<le> length cs" by (simp add: ci_match_def)
    have "suffix (drop 5 cs) (c # cs)" by (meson suffix_drop suffix_ConsI)
    with "2.prems" have "\<not> ci_endswith (drop 5 cs) ''```sq''"
      using ci_endswith_suffix_mono by blast
    with True "2.IH"(1) have ih: "re_sub_fence (drop 5 cs @ ''Let's run'' @ b)
        = re_sub_fence (drop 5 cs) @ ''Let's run'' @ re_sub_fence b" by blast
    have "re_sub_fence ((c # cs) @ ''Let's run'' @ b)
        = re_sub_fence (drop 5 (cs @ ''Let's run'' @ b))"
      using True m6 unfolding L by simp
    also have "drop 5 (cs @ ''Let's run'' @ b) = drop 5 cs @ ''Let's run'' @ b"
      using len by simp
    finally show ?thesis using ih True by simp
  next
    case nsql: False
    show ?thesis
    proof (cases "ci_match ''```'' (c # cs)")
      case True
      then have len: "2 \<le> length cs" by (simp add: ci_match_def)
      have "suffix (drop 2 cs) (c # cs)" by (meson suffix_drop suffix_ConsI)
      with "2.prems" have "\<not> ci_endswith (drop 2 cs) ''```sq''"
        using ci_endswith_suffix_mono by blast
      with nsql True "2.IH"(2) have ih: "re_sub_fence (drop 2 cs @ ''Let's run'' @ b)
          = re_sub_fence (drop 2 cs) @ ''Let's run'' @ re_sub_fence b" by blast
      have "re_sub_fence ((c # cs) @ ''Let's run'' @ b)
          = re_sub_fence (drop 2 (cs @ ''Let's run'' @ b))"
        using True nsql m6 m3 unfolding L by simp
      also have "drop 2 (cs @ ''Let's run'' @ b) = drop 2 cs @ ''Let's run'' @ b"
        using len by simp
      finally show ?thesis using ih True nsql by simp
    next
      case False
      have "suffix cs (c # cs)" by (simp add: suffix_ConsI)
      with "2.prems" have "\<not> ci_endswith cs ''```sq''"
        using ci_endswith_suffix_mono by blast
      with nsql False "2.IH"(3) have ih: "re_sub_fence (cs @ ''Let's run'' @ b)
          = re_sub_fence cs @ ''Let's run'' @ re_sub_fence b" by blast
      have "re_sub_fence ((c # cs) @ ''Let's run'' @ b)
          = c # re_sub_fence (cs @ ''Let's run'' @ b)"
        using False nsql m6 m3 unfolding L by simp
      then show ?thesis using ih False nsql by simp
    qed
  qed
qed

lemma prefix_across:
  assumes "sep \<noteq> []" and "hd sep \<notin> set (tl sep)" and "x \<noteq> []"
    and "prefix sep (x @ sep @ y)"
  shows "prefix sep x"
proof (rule ccontr)
  assume n: "\<not> prefix sep x"
  from assms(4) have "prefix sep x \<or> (\<exists>us. sep = x @ us \<and> prefix us (sep @ y))"
    by (simp only: prefix_append)
  with n obtain us where us: "sep = x @ us" "prefix us (sep @ y)" by blast
  from n us(1) have ne: "us \<noteq> []" by (metis append_Nil2 prefix_order.order_refl)
  then obtain u us' where u: "us = u # us'" by (cases us) blast+
  from assms(1) obtain s sep' where s: "sep = s # sep'" by (cases sep) blast+
  from us(2) have "u = s" unfolding u s by simp
  then have "hd us = hd sep" by (simp only: u s list.sel)
  moreover from assms(3) obtain a x' where x: "x = a # x'" by (cases x) blast+
  have "tl sep = x' @ us" using us(1) unfolding x by (metis list.sel(3) append_Cons)
  then have "set us \<subseteq> set (tl sep)" by simp
  moreover have "hd us \<in> set us" using ne by (rule hd_in_set)
  ultimately show False using assms(2) by (metis subsetD)
qed

lemma before_sep_append:
  assumes "sep \<noteq> []" and "hd sep \<notin> set (tl sep)"
  shows "before_sep sep (x @ sep @ y) = before_sep sep x"
proof (induction x)
  case Nil
  from assms(1) show ?case by (cases sep) simp_all
next
  case (Cons c cs)
  have "prefix sep ((c # cs) @ sep @ y) \<longleftrightarrow> prefix sep (c # cs)"
    using prefix_across [OF assms, of "c # cs" y] prefix_prefix [of sep "c # cs" "sep @ y"]
    by blast
  then show ?case using Cons.IH by (simp del: prefix_code)
qed

lemma before_phrase_append:
  "before_sep ''Let's run'' (x @ ''Let's run'' @ y) = before_sep ''Let's run'' x"
  by (rule before_sep_append) simp_all

lemma clean_sql_query_before_phrase:
  assumes "\<not> ci_endswith a ''```sq''"
  shows "clean_sql_query (a @ ''Let's run'' @ b) = clean_sql_query a"
  by (simp only: clean_sql_query_eq re_sub_fence_before_phrase [OF assms] before_phrase_append)

lemma py_lower_space: "py_isspace w \<Longrightarrow> py_lower w = w"
  by (auto simp: py_isspace_def py_lower_def)

lemma ci_match_empty: "ci_match q [] \<longleftrightarrow> q = []"
  by (simp add: ci_match_def)

lemma ci_match_before_space:
  assumes "\<forall>c\<in>set ws. py_isspace c" and "\<forall>x\<in>set p. \<not> py_isspace (py_lower x)"
  shows "ci_match p (s @ ws) \<longleftrightarrow> ci_match p s"
proof -
  have "\<not> (length s < length p \<and> ci_match (drop (length s) p) ws)"
  proof
    assume a: "length s < length p \<and> ci_match (drop (length s) p) ws"
    show False
    proof (cases ws)
      case Nil
      with a show False by (auto simp: ci_match_empty)
    next
      case (Cons w ws')
      with a have "py_lower w = py_lower (p ! length s)"
        using ci_match_drop_hd [of "length s" p w ws'] by simp
      moreover from Cons assms(1) have "py_isspace w" by simp
      moreover from a have "p ! length s \<in> set p" by simp
      ultimately show False using assms(2) py_lower_space by metis
    qed
  qed
  moreover have "ci_match p s \<Longrightarrow> length p \<le> length s" by (simp add: ci_match_def)
  ultimately show ?thesis using ci_match_split [of p s ws] by auto
qed

lemma fence_chars_not_space:
  "\<forall>x\<in>set ''```sql''. \<not> py_isspace (py_lower x)" "\<forall>x\<in>set ''```''. \<not> py_isspace (py_lower x)"
  by (simp_all add: py_isspace_def py_lower_def)

lemma re_sub_fence_spaces: "\<forall>c\<in>set ws. py_isspace c \<Longrightarrow> re_sub_fence ws = ws"
proof (induction ws)
  case Nil
  show ?case by simp
next
  case (Cons w ws)
  then have "py_lower w = w" "w \<noteq> CHR 0x60" by (auto simp: py_lower_space py_isspace_def)
  then have "\<not> ci_match ''```sql'' (w # ws)" "\<not> ci_match ''```'' (w # ws)"
    by (simp_all add: ci_match_Cons py_lower_const)
  with Cons show ?case by simp
qed

lemma re_sub_fence_before_spaces:
  assumes "\<forall>c\<in>set ws. py_isspace c"
  shows "re_sub_fence (x @ ws) = re_sub_fence x @ ws"
proof (induction x rule: re_sub_fence.induct)
  case 1
  show ?case using re_sub_fence_spaces [OF assms] by simp
next
  case (2 c cs)
  have m6: "ci_match ''```sql'' ((c # cs) @ ws) \<longleftrightarrow> ci_match ''```sql'' (c # cs)"
    using assms fence_chars_not_space(1) by (rule ci_match_before_space)
  have m3: "ci_match ''```'' ((c # cs) @ ws) \<longleftrightarrow> ci_match ''```'' (c # cs)"
    using assms fence_chars_not_space(2) by (rule ci_match_before_space)
  show ?case
  proof (cases "ci_match ''```sql'' (c # cs)")
    case True
    then have len: "5 \<le> length cs" by (simp add: ci_match_def)
    have "re_sub_fence ((c # cs) @ ws) = re_sub_fence (drop 5 (cs @ ws))"
      using True m6 by simp
    also have "drop 5 (cs @ ws) = drop 5 cs @ ws" using len by simp
    finally show ?thesis using "2.IH"(1) True by simp
  next
    case nsql: False
    show ?thesis
    proof (cases "ci_match ''```'' (c # cs)")
      case True
      then have len: "2 \<le> length cs" by (simp add: ci_match_def)
      have "re_sub_fence ((c # cs) @ ws) = re_sub_fence (drop 2 (cs @ ws))"
        using True nsql m6 m3 by simp
      also have "drop 2 (cs @ ws) = drop 2 cs @ ws" using len by simp
      finally show ?thesis using "2.IH"(2) True nsql by simp
    next
      case False
      have "re_sub_fence ((c # cs) @ ws) = c # re_sub_fence (cs @ ws)"
        using False nsql m6 m3 by simp
      then show ?thesis using "2.IH"(3) False nsql by simp
    qed
  qed
qed

lemma phrase_not_across_spaces:
  assumes "\<forall>c\<in>set ws. py_isspace c"
  shows "prefix ''Let's run'' (y @ ws) \<longleftrightarrow> prefix ''Let's run'' y"
proof
  assume "prefix ''Let's run'' (y @ ws)"
  then have "prefix ''Let's run'' y \<or> (\<exists>us. ''Let's run'' = y @ us \<and> prefix us ws)"
    by (simp only: prefix_append)
  then show "prefix ''Let's run'' y"
  proof
    assume "\<exists>us. ''Let's run'' = y @ us \<and> prefix us ws"
    then obtain us where us: "''Let's run'' = y @ us" "prefix us ws" by blast
    show ?thesis
    proof (cases "us = []")
      case True
      with us(1) have "y = ''Let's run''" by (simp only: append_Nil2)
      then show ?thesis by (simp only: prefix_order.order_refl)
    next
      case False
      then have "last (y @ us) = last us" by (rule last_appendR)
      then have "last us = last ''Let's run''" by (simp only: us(1))
      then have n: "last us = CHR ''n''" by simp
      have "last us \<in> set us" using False by (rule last_in_set)
      moreover have "set us \<subseteq> set ws" using us(2) by (rule set_mono_prefix)
      ultimately have "py_isspace (last us)" using assms by blast
      then have "py_isspace CHR ''n''" by (simp only: n)
      then have False by (simp add: py_isspace_def)
      then show ?thesis ..
    qed
  qed
next
  assume "prefix ''Let's run'' y"
  then show "prefix ''Let's run'' (y @ ws)" by (rule prefix_prefix)
qed

lemma before_phrase_spaces:
  assumes "\<forall>c\<in>set ws. py_isspace c"
  shows "\<exists>ws'. before_sep ''Let's run'' (y @ ws) = before_sep ''Let's run'' y @ ws'
               \<and> (\<forall>c\<in>set ws'. py_isspace c)"
proof (induction y)
  case Nil
  have "before_sep ''Let's run'' ws = ws" using assms
  proof (induction ws)
    case Nil
    show ?case by simp
  next
    case (Cons w ws)
    then have "w \<noteq> CHR ''L''" by (auto simp: py_isspace_def)
    with Cons show ?case by simp
  qed
  with assms show ?case by auto
next
  case (Cons c cs)
  have p: "prefix ''Let's run'' ((c # cs) @ ws) \<longleftrightarrow> prefix ''Let's run'' (c # cs)"
    using assms by (rule phrase_not_across_spaces)
  show ?case
  proof (cases "prefix ''Let's run'' (c # cs)")
    case True
    with p have "before_sep ''Let's run'' ((c # cs) @ ws) = []"
      "before_sep ''Let's run'' (c # cs) = []" by (simp_all del: prefix_code)
    then show ?thesis by simp
  next
    case False
    with p have "before_sep ''Let's run'' ((c # cs) @ ws) = c # before_sep ''Let's run'' (cs @ ws)"
      "before_sep ''Let's run'' (c # cs) = c # before_sep ''Let's run'' cs"
      by (simp_all del: prefix_code)
    with Cons.IH show ?thesis by auto
  qed
qed

lemma dropWhile_before_stop:
  "z \<noteq> [] \<Longrightarrow> \<not> P (hd z) \<Longrightarrow> dropWhile P (a @ z) = dropWhile P a @ z"
  by (induction a) (cases z; simp)+

lemma py_strip_spaces:
  assumes "\<forall>c\<in>set ws. py_isspace c"
  shows "py_strip (u @ ws) = py_strip u"
proof (cases "\<forall>c\<in>set u. py_isspace c")
  case True
  with assms have "dropWhile py_isspace (u @ ws) = []" "dropWhile py_isspace u = []"
    by (simp_all add: dropWhile_eq_Nil_conv)
  then show ?thesis by (simp only: py_strip_def)
next
  case False
  then obtain x where "x \<in> set u" "\<not> py_isspace x" by blast
  then have d: "dropWhile py_isspace (u @ ws) = dropWhile py_isspace u @ ws"
    by (rule dropWhile_append1)
  have "dropWhile py_isspace (rev ws @ rev (dropWhile py_isspace u))
          = dropWhile py_isspace (rev (dropWhile py_isspace u))"
    using assms by (intro dropWhile_append2) simp
  then show ?thesis by (simp add: py_strip_def d)
qed

lemma clean_sql_query_spaces:
  assumes "\<forall>c\<in>set ws. py_isspace c"
  shows "clean_sql_query (x @ ws) = clean_sql_query x"
proof -
  from before_phrase_spaces [OF assms, of "re_sub_fence x"] obtain ws' where
    w: "before_sep ''Let's run'' (re_sub_fence x @ ws) = before_sep ''Let's run'' (re_sub_fence x) @ ws'"
       "\<forall>c\<in>set ws'. py_isspace c" by blast
  show ?thesis
    by (simp only: clean_sql_query_eq re_sub_fence_before_spaces [OF assms] w(1)
        py_strip_spaces [OF w(2)])
qed

lemma py_strip_phrase:
  "py_strip (a @ ''Let's run'' @ b)
     = dropWhile py_isspace a @ ''Let's run'' @ rev (dropWhile py_isspace (rev b))"
proof -
  have 1: "dropWhile py_isspace (a @ ''Let's run'' @ b)
             = dropWhile py_isspace a @ ''Let's run'' @ b"
    by (rule dropWhile_before_stop) (simp_all add: py_isspace_def)
  have "dropWhile py_isspace (rev b @ rev (dropWhile py_isspace a @ ''Let's run''))
          = dropWhile py_isspace (rev b) @ rev (dropWhile py_isspace a @ ''Let's run'')"
    by (rule dropWhile_before_stop) (simp_all add: py_isspace_def)
  then have "rev (dropWhile py_isspace (rev (dropWhile py_isspace a @ ''Let's run'' @ b)))
          = dropWhile py_isspace a @ ''Let's run'' @ rev (dropWhile py_isspace (rev b))"
    by simp
  then show ?thesis by (simp only: py_strip_def 1)
qed

lemma prefix_not_across:
  assumes "z \<noteq> []" and "hd z \<notin> set p"
  shows "prefix p (x @ z) \<longleftrightarrow> prefix p x"
proof
  assume "prefix p (x @ z)"
  then have "prefix p x \<or> (\<exists>us. p = x @ us \<and> prefix us z)" by (simp only: prefix_append)
  then show "prefix p x"
  proof
    assume "\<exists>us. p = x @ us \<and> prefix us z"
    then obtain us where us: "p = x @ us" "prefix us z" by blast
    show ?thesis
    proof (cases us)
      case Nil
      with us(1) show ?thesis by simp
    next
      case (Cons u us')
      with us(2) assms(1) have "hd z = u" by (cases z) simp_all
      with us(1) Cons assms(2) have False by simp
      then show ?thesis ..
    qed
  qed
next
  assume "prefix p x"
  then show "prefix p (x @ z)" by (rule prefix_prefix)
qed

lemma prefix_rstrip:
  assumes "p \<noteq> []" and "\<not> P (last p)"
  shows "prefix p (rev (dropWhile P (rev t))) \<longleftrightarrow> prefix p t"
proof
  assume a: "prefix p (rev (dropWhile P (rev t)))"
  have "prefix (rev (dropWhile P (rev t))) t"
    by (metis suffix_dropWhile suffix_to_prefix rev_rev_ident)
  with a show "prefix p t" by (rule prefix_order.trans)
next
  assume "prefix p t"
  then obtain r where t: "t = p @ r" by (auto simp: prefix_def)
  have "dropWhile P (rev r @ rev p) = dropWhile P (rev r) @ rev p"
    using assms by (intro dropWhile_before_stop) (simp_all add: hd_rev)
  then have "rev (dropWhile P (rev t)) = p @ rev (dropWhile P (rev r))" by (simp add: t)
  then show "prefix p (rev (dropWhile P (rev t)))" by simp
qed

lemma rstrip_decomp: "\<exists>ws. t = rev (dropWhile P (rev t)) @ ws \<and> (\<forall>c\<in>set ws. P c)"
proof -
  have "rev t = takeWhile P (rev t) @ dropWhile P (rev t)" by simp
  then have "t = rev (dropWhile P (rev t)) @ rev (takeWhile P (rev t))"
    by (metis rev_append rev_rev_ident)
  moreover have "\<forall>c\<in>set (rev (takeWhile P (rev t))). P c"
    by (auto dest: set_takeWhileD)
  ultimately show ?thesis by blast
qed

lemma startswith_command_before_phrase:
  assumes "p \<noteq> []" and "CHR ''L'' \<notin> set p" and "\<not> py_isspace (last p)"
  shows "py_startswith (py_strip (a @ ''Let's run'' @ b)) p \<longleftrightarrow> py_startswith (py_strip a) p"
proof -
  let ?a = "dropWhile py_isspace a"
  have "prefix p (?a @ ''Let's run'' @ rev (dropWhile py_isspace (rev b))) \<longleftrightarrow> prefix p ?a"
    using assms(2) by (intro prefix_not_across) simp_all
  moreover have "prefix p (rev (dropWhile py_isspace (rev ?a))) \<longleftrightarrow> prefix p ?a"
    using assms(1,3) by (rule prefix_rstrip)
  moreover have "py_startswith (py_strip (a @ ''Let's run'' @ b)) p
      \<longleftrightarrow> prefix p (?a @ ''Let's run'' @ rev (dropWhile py_isspace (rev b)))"
    by (simp only: py_startswith_def py_strip_phrase)
  moreover have "py_startswith (py_strip a) p
      \<longleftrightarrow> prefix p (rev (dropWhile py_isspace (rev ?a)))"
    by (simp only: py_startswith_def py_strip_def)
  ultimately show ?thesis by blast
qed

lemma fix_query_before_phrase:
  assumes "\<not> ci_endswith a ''```sq''"
  shows "fix_query (a @ ''Let's run'' @ b) = fix_query a"
proof -
  let ?a = "dropWhile py_isspace a"
  let ?b = "rev (dropWhile py_isspace (rev b))"
  have s1: "py_startswith (py_strip (a @ ''Let's run'' @ b)) ''.schema''
              \<longleftrightarrow> py_startswith (py_strip a) ''.schema''"
    by (rule startswith_command_before_phrase) (simp_all add: py_isspace_def)
  have s2: "py_startswith (py_strip (a @ ''Let's run'' @ b)) ''.tables''
              \<longleftrightarrow> py_startswith (py_strip a) ''.tables''"
    by (rule startswith_command_before_phrase) (simp_all add: py_isspace_def)
  have "suffix ?a a" by (rule suffix_dropWhile)
  with assms have "\<not> ci_endswith ?a ''```sq''" using ci_endswith_suffix_mono by blast
  then have c1: "clean_sql_query (?a @ ''Let's run'' @ ?b) = clean_sql_query ?a"
    by (rule clean_sql_query_before_phrase)
  from rstrip_decomp [of ?a py_isspace] obtain ws where
    ws: "?a = py_strip a @ ws" "\<forall>c\<in>set ws. py_isspace c"
    unfolding py_strip_def by blast
  have "clean_sql_query (py_strip a @ ws) = clean_sql_query (py_strip a)"
    using ws(2) by (rule clean_sql_query_spaces)
  with ws(1) have c2: "clean_sql_query ?a = clean_sql_query (py_strip a)" by simp
  have c: "clean_sql_query (py_strip (a @ ''Let's run'' @ b)) = clean_sql_query (py_strip a)"
    using c1 c2 by (simp only: py_strip_phrase)
  show ?thesis
  proof (cases "py_startswith (py_strip a) ''.schema''")
    case True
    then show ?thesis by (simp only: fix_query_def Let_def s1 if_True)
  next
    case f1: False
    show ?thesis
    proof (cases "py_startswith (py_strip a) ''.tables''")
      case True
      with f1 show ?thesis by (simp only: fix_query_def Let_def s1 s2 if_True if_False)
    next
      case False
      with f1 show ?thesis by (simp only: fix_query_def Let_def s1 s2 if_False c)
    qed
  qed
qed

text \<open>
  C4, as the code has it. The fences are removed first and the text is cut at the phrase
  afterwards. For every candidate in which the phrase \<open>Let's run\<close> does not come right
  after \<open>```sq\<close> (in any letter case), everything from the phrase onward is discarded:
  the result is the result of the text before the phrase, for \<open>clean_sql_query\<close> and for
  the whole of lines 140 to 149. The witness is the fenced \<open>SELECT 1\<close> followed by
  \<open>Let's run it\<close>, which gives \<open>SELECT 1;\<close>.
\<close>

theorem discards_from_phrase:
  assumes "\<not> ci_endswith a ''```sq''"
  shows "clean_sql_query (a @ ''Let's run'' @ b) = clean_sql_query a
         \<and> fix_query (a @ ''Let's run'' @ b) = fix_query a"
  using assms clean_sql_query_before_phrase fix_query_before_phrase by blast

lemma fenced_select:
  "clean_sql_query ''```sql\<newline>SELECT 1\<newline>```\<newline>'' = Inr ''SELECT 1;''"
  "fix_query ''```sql\<newline>SELECT 1\<newline>```\<newline>'' = Inr ''SELECT 1;''"
  by code_simp+

theorem discards_from_phrase_witness:
  "\<not> ci_endswith ''```sql\<newline>SELECT 1\<newline>```\<newline>'' ''```sq''
   \<and> clean_sql_query ''```sql\<newline>SELECT 1\<newline>```\<newline>Let's run it'' = Inr ''SELECT 1;''
   \<and> fix_query ''```sql\<newline>SELECT 1\<newline>```\<newline>Let's run it'' = Inr ''SELECT 1;''"
proof -
  have h: "\<not> ci_endswith ''```sql\<newline>SELECT 1\<newline>```\<newline>'' ''```sq''" by code_simp
  from discards_from_phrase [OF h, of "'' it''"] h fenced_select show ?thesis by simp
qed

text \<open>
  C4 as stated fails: in the candidate below the fence pattern, which ignores case,
  takes the \<open>L\<close> of the phrase as the last letter of \<open>```sql\<close>; no phrase is left to cut
  at, and the text after it stays in the result.
\<close>

theorem phrase_after_fence_counterexample:
  "clean_sql_query ''SELECT 1 ```sqLet's run it'' = Inr ''SELECT 1 et's run it;''
   \<and> fix_query ''SELECT 1 ```sqLet's run it'' = Inr ''SELECT 1 et's run it;''
   \<and> clean_sql_query ''SELECT 1 ```sq'' = Inr ''SELECT 1 sq;''"
  by code_simp

section \<open>The line that the extraction takes\<close>

lemma ci_match_nth:
  assumes "ci_match p s" and "i < length p"
  shows "py_lower (s ! i) = py_lower (p ! i)"
proof -
  from assms(1) have l: "length p \<le> length s"
    and e: "map py_lower (take (length p) s) = map py_lower p"
    by (simp_all add: ci_match_def)
  have "map py_lower (take (length p) s) ! i = py_lower (s ! i)"
    using assms(2) l by simp
  moreover have "map py_lower p ! i = py_lower (p ! i)" using assms(2) by simp
  ultimately show ?thesis using e by simp
qed

lemma marker_nth_not_colon: "j < 8 \<Longrightarrow> py_lower (''SQLQuery:'' ! j) \<noteq> CHR '':''"
proof -
  assume "j < 8"
  then consider "j = 0" | "j = 1" | "j = 2" | "j = 3" | "j = 4" | "j = 5" | "j = 6" | "j = 7"
    by linarith
  then show ?thesis by cases (simp_all add: py_lower_def char_of_eq_iff)
qed

lemma marker_no_overlap:
  assumes "ci_match ''SQLQuery:'' post" and "0 < k" and "k < 9"
  shows "\<not> ci_match (drop k ''SQLQuery:'') post"
proof
  assume a: "ci_match (drop k ''SQLQuery:'') post"
  have "8 - k < length (drop k ''SQLQuery:'')" using assms(2,3) by simp
  with a have "py_lower (post ! (8 - k)) = py_lower (drop k ''SQLQuery:'' ! (8 - k))"
    by (rule ci_match_nth)
  also have "drop k ''SQLQuery:'' ! (8 - k) = ''SQLQuery:'' ! 8"
    using assms(3) by (simp del: drop_Cons_numeral add: nth_drop)
  also have "py_lower (''SQLQuery:'' ! 8) = CHR '':''" by (simp add: py_lower_def)
  finally have c: "py_lower (post ! (8 - k)) = CHR '':''" .
  have "py_lower (post ! (8 - k)) = py_lower (''SQLQuery:'' ! (8 - k))"
    using assms(1) by (rule ci_match_nth) simp
  with c have "py_lower (''SQLQuery:'' ! (8 - k)) = CHR '':''" by simp
  moreover have "8 - k < 8" using assms(2) by simp
  ultimately show False using marker_nth_not_colon by blast
qed

lemma re_search_first_marker:
  assumes "ci_match ''SQLQuery:'' post"
  shows "\<not> has_marker pre \<Longrightarrow>
    re_search_sqlquery (pre @ post)
      = Some (takeWhile (\<lambda>x. x \<noteq> CHR 0x0A) (dropWhile py_isspace (drop 9 post)))"
proof (induction pre)
  case Nil
  from assms obtain c cs where p: "post = c # cs" by (cases post) (simp_all add: ci_match_def)
  with assms show ?case by simp
next
  case (Cons c cs)
  then have n: "\<not> ci_match ''SQLQuery:'' (c # cs)" and h: "\<not> has_marker cs" by simp_all
  have "\<not> ci_match ''SQLQuery:'' ((c # cs) @ post)"
  proof
    assume "ci_match ''SQLQuery:'' ((c # cs) @ post)"
    then have "length (c # cs) < 9 \<and> ci_match (drop (length (c # cs)) ''SQLQuery:'') post"
      using n ci_match_split [of "''SQLQuery:''" "c # cs" post] by auto
    then show False using marker_no_overlap [OF assms, of "length (c # cs)"] by simp
  qed
  then have "re_search_sqlquery ((c # cs) @ post) = re_search_sqlquery (cs @ post)" by simp
  with Cons.IH [OF h] show ?case by simp
qed

lemma first_line_taken:
  assumes "\<forall>c\<in>set ws. py_isspace c" and "line \<noteq> []" and "\<not> py_isspace (hd line)"
    and "CHR 0x0A \<notin> set line" and "rest = [] \<or> hd rest = CHR 0x0A"
  shows "takeWhile (\<lambda>x. x \<noteq> CHR 0x0A) (dropWhile py_isspace (ws @ line @ rest)) = line"
proof -
  have "dropWhile py_isspace (ws @ line @ rest) = dropWhile py_isspace (line @ rest)"
    using assms(1) by (intro dropWhile_append2) simp
  also have "\<dots> = line @ rest" using assms(2,3) by (cases line) simp_all
  finally have d: "dropWhile py_isspace (ws @ line @ rest) = line @ rest" .
  have "takeWhile (\<lambda>x. x \<noteq> CHR 0x0A) (line @ rest)
          = line @ takeWhile (\<lambda>x. x \<noteq> CHR 0x0A) rest"
    using assms(4) by (intro takeWhile_append2) auto
  moreover have "takeWhile (\<lambda>x. x \<noteq> CHR 0x0A) rest = []"
    using assms(5) by (cases rest) auto
  ultimately show ?thesis using d by simp
qed

lemma extract_first_line:
  assumes "\<not> has_marker pre" and "ci_match ''SQLQuery:'' m" and "length m = 9"
    and "\<forall>c\<in>set ws. py_isspace c" and "line \<noteq> []" and "\<not> py_isspace (hd line)"
    and "CHR 0x0A \<notin> set line" and "rest = [] \<or> hd rest = CHR 0x0A"
  shows "extract_sql_query (pre @ m @ ws @ line @ rest) = Some (py_strip line)"
proof -
  have "ci_match ''SQLQuery:'' (m @ ws @ line @ rest)"
    using assms(2) by (rule ci_match_prefix_mono) simp
  from re_search_first_marker [OF this assms(1)] assms(3)
  have "re_search_sqlquery (pre @ m @ ws @ line @ rest)
     = Some (takeWhile (\<lambda>x. x \<noteq> CHR 0x0A) (dropWhile py_isspace (ws @ line @ rest)))"
    by simp
  then show ?thesis
    using first_line_taken [OF assms(4-8)] by (simp add: extract_sql_query_def)
qed

text \<open>
  C10, as the code has it. After the first marker the pattern skips every white-space
  character, line breaks included, and captures up to the next line feed: the candidate
  is the first line that holds a character other than white space, stripped, and all the
  lines after it are discarded. The sanitizer gives what it gives on the marker followed
  by that line alone.
\<close>

theorem extraction_takes_first_nonblank_line:
  assumes "\<not> has_marker pre" and "ci_match ''SQLQuery:'' m" and "length m = 9"
    and "\<forall>c\<in>set ws. py_isspace c" and "line \<noteq> []" and "\<not> py_isspace (hd line)"
    and "CHR 0x0A \<notin> set line"
  shows "extract_sql_query (pre @ m @ ws @ line @ CHR 0x0A # rest) = Some (py_strip line)
         \<and> sanitize (pre @ m @ ws @ line @ CHR 0x0A # rest) = sanitize (''SQLQuery:'' @ line)"
proof -
  have 1: "extract_sql_query (pre @ m @ ws @ line @ CHR 0x0A # rest) = Some (py_strip line)"
    using assms by (intro extract_first_line) simp_all
  have "\<not> has_marker []" "ci_match ''SQLQuery:'' ''SQLQuery:''" "\<forall>c\<in>set []. py_isspace c"
    by (simp_all add: ci_match_def)
  then have "extract_sql_query ([] @ ''SQLQuery:'' @ [] @ line @ []) = Some (py_strip line)"
    using assms(5-7) by (intro extract_first_line) simp_all
  then have 2: "extract_sql_query (''SQLQuery:'' @ line) = Some (py_strip line)" by simp
  have "sanitize (pre @ m @ ws @ line @ CHR 0x0A # rest) = sanitize (''SQLQuery:'' @ line)"
    unfolding sanitize_def 1 2 ..
  with 1 show ?thesis by blast
qed

theorem extraction_takes_first_nonblank_line_witness:
  "\<not> has_marker ''Here it is. ''
   \<and> ci_match ''SQLQuery:'' ''sqlquery:'' \<and> length ''sqlquery:'' = 9
   \<and> list_all py_isspace '' \<newline>  ''
   \<and> ''SELECT name '' \<noteq> [] \<and> \<not> py_isspace (hd ''SELECT name '')
   \<and> CHR 0x0A \<notin> set ''SELECT name ''
   \<and> extract_sql_query (''Here it is. '' @ ''sqlquery:'' @ '' \<newline>  '' @ ''SELECT name ''
         @ CHR 0x0A # ''FROM student;'') = Some ''SELECT name''
   \<and> sanitize (''Here it is. '' @ ''sqlquery:'' @ '' \<newline>  '' @ ''SELECT name ''
         @ CHR 0x0A # ''FROM student;'') = Inr (Some ''SELECT name;'')"
proof -
  have a: "\<not> has_marker ''Here it is. ''" by code_simp
  have b: "ci_match ''SQLQuery:'' ''sqlquery:''" by code_simp
  have c: "length ''sqlquery:'' = 9" by simp
  have d: "\<forall>c\<in>set '' \<newline>  ''. py_isspace c" by (simp add: py_isspace_def)
  have e: "''SELECT name '' \<noteq> []" by simp
  have f: "\<not> py_isspace (hd ''SELECT name '')" by (simp add: py_isspace_def)
  have g: "CHR 0x0A \<notin> set ''SELECT name ''" by simp
  have s: "py_strip ''SELECT name '' = ''SELECT name''" by code_simp
  have t: "sanitize (''SQLQuery:'' @ ''SELECT name '') = Inr (Some ''SELECT name;'')"
    by code_simp
  from extraction_takes_first_nonblank_line [OF a b c d e f g, of "''FROM student;''"]
  have "extract_sql_query (''Here it is. '' @ ''sqlquery:'' @ '' \<newline>  '' @ ''SELECT name ''
         @ CHR 0x0A # ''FROM student;'') = Some ''SELECT name''
   \<and> sanitize (''Here it is. '' @ ''sqlquery:'' @ '' \<newline>  '' @ ''SELECT name ''
         @ CHR 0x0A # ''FROM student;'') = Inr (Some ''SELECT name;'')"
    unfolding s t .
  moreover have "list_all py_isspace '' \<newline>  ''" by (simp add: py_isspace_def)
  ultimately show ?thesis using a b c e f g by blast
qed

text \<open>
  C10 as stated fails: in the answer below nothing stands between the marker and the end
  of its line, yet the candidate is \<open>SELECT 1\<close>, taken from the next line.
\<close>

theorem marker_line_counterexample:
  "extract_sql_query ''SQLQuery:\<newline>SELECT 1\<newline>FROM t'' = Some ''SELECT 1''
   \<and> takeWhile (\<lambda>c. c \<noteq> CHR 0x0A) ''\<newline>SELECT 1\<newline>FROM t'' = []
   \<and> sanitize ''SQLQuery:\<newline>SELECT 1\<newline>FROM t'' = Inr (Some ''SELECT 1;'')"
  by code_simp

end
